theory Spec2Isabelle
  imports
    Complex_Main
    "HOL-Library.Log_Nat"
    "HOL-Library.Sublist"
    "HOL-Library.Char_ord"
    "HOL-Library.List_Lexorder"
    "HOL-Library.AList"
begin

section \<open>Python values used by the miner\<close>

text \<open>
  Exceptions are values: every function that can raise returns \<open>error + 'a\<close>, with
  \<open>Inl\<close> the exception. \<open>NoReturn\<close> stands for a loop that does not come back.
\<close>

datatype error =
  ValueError | KeyError | ZeroDivisionError | OverflowError | TypeError | AttributeError | NoReturn

definition ebind :: "error + 'a \<Rightarrow> ('a \<Rightarrow> error + 'b) \<Rightarrow> error + 'b" where
  "ebind m f = (case m of Inl e \<Rightarrow> Inl e | Inr x \<Rightarrow> f x)"

subsection \<open>Strings\<close>

text \<open>
  Strings are byte lists (UTF-8). The conjunction separator of a rule is a space, the
  character U+2227 (bytes E2 88 A7) and a space.
\<close>

definition conj_sep :: string where
  "conj_sep = [CHR '' '', CHR 0xE2, CHR 0x88, CHR 0xA7, CHR '' '']"

text \<open>\<open>s.split(d)\<close> for a non-empty separator: left to right, occurrences do not overlap.\<close>

fun split_from :: "string \<Rightarrow> string \<Rightarrow> string \<Rightarrow> string list" where
  "split_from d piece [] = [piece]"
| "split_from d piece (c # cs) =
     (if d \<noteq> [] \<and> prefix d (c # cs)
      then piece # split_from d [] (drop (length d - 1) cs)
      else split_from d (piece @ [c]) cs)"

definition py_split :: "string \<Rightarrow> string \<Rightarrow> string list" where
  "py_split s d = split_from d [] s"

text \<open>\<open>d.join(xs)\<close>.\<close>

fun join_str :: "string \<Rightarrow> string list \<Rightarrow> string" where
  "join_str d [] = []"
| "join_str d [x] = x"
| "join_str d (x # y # ys) = x @ d @ join_str d (y # ys)"

text \<open>\<open>s.strip()\<close>, for the whitespace characters of the ASCII range.\<close>

definition is_space :: "char \<Rightarrow> bool" where
  "is_space c = (c \<in> set [CHR '' '', CHR 0x09, CHR 0x0A, CHR 0x0B, CHR 0x0C, CHR 0x0D,
                            CHR 0x1C, CHR 0x1D, CHR 0x1E, CHR 0x1F])"

definition strip :: "string \<Rightarrow> string" where
  "strip s = rev (dropWhile is_space (rev (dropWhile is_space s)))"

text \<open>The atoms of a rule string: \<open>set(rule.split(" \<and> "))\<close>.\<close>

definition rule_atoms :: "string \<Rightarrow> string set" where
  "rule_atoms r = set (py_split r conj_sep)"

subsection \<open>Floats\<close>

text \<open>
  A float is the rational it denotes. \<open>fl_round\<close> rounds a rational to the nearest
  binary64 value, ties to even: 53 significant bits, exponents from -1022 (below that
  the spacing stays \<open>2 powi (-1074)\<close>). Overflow is tested by the operations.
\<close>

definition ilog2 :: "rat \<Rightarrow> int" where
  "ilog2 x = (if 1 \<le> x then bitlen \<lfloor>x\<rfloor> - 1 else - bitlen (\<lceil>1 / x\<rceil> - 1))"

definition round_half_even :: "rat \<Rightarrow> int" where
  "round_half_even m =
     (let f = \<lfloor>m\<rfloor>; r = m - of_int f
      in if r < 1 / 2 then f else if 1 / 2 < r then f + 1 else if even f then f else f + 1)"

definition fl_round :: "rat \<Rightarrow> rat" where
  "fl_round x =
     (if x = 0 then 0
      else let e = max (ilog2 \<bar>x\<bar>) (- 1022); q = 2 powi (e - 52)
           in sgn x * (of_int (round_half_even (\<bar>x\<bar> / q)) * q))"

text \<open>
  \<open>a / b\<close> on Python integers: correctly rounded, \<open>ZeroDivisionError\<close> for a zero
  divisor, \<open>OverflowError\<close> when the quotient is too large for a float.
\<close>

definition py_truediv :: "int \<Rightarrow> int \<Rightarrow> error + rat" where
  "py_truediv a b =
     (if b = 0 then Inl ZeroDivisionError
      else let q = fl_round (of_int a / of_int b)
           in if 2 ^ 1024 \<le> \<bar>q\<bar> then Inl OverflowError else Inr q)"

text \<open>\<open>int(x)\<close> on a float: truncation towards zero.\<close>

definition py_int :: "rat \<Rightarrow> int" where
  "py_int x = (if 0 \<le> x then \<lfloor>x\<rfloor> else \<lceil>x\<rceil>)"

text \<open>Float arithmetic of the array library: division and product, correctly rounded.\<close>

definition float_div :: "rat \<Rightarrow> rat \<Rightarrow> rat" where
  "float_div x y = fl_round (x / y)"

definition float_mul :: "rat \<Rightarrow> rat \<Rightarrow> rat" where
  "float_mul x y = fl_round (x * y)"

section \<open>The data frame and the algorithm object\<close>

text \<open>
  A cell of the loaded table is text, missing (\<open>NaN\<close>), or the frozenset of atoms
  that Stage 1 stores in its own column. A row maps column names to cells.
\<close>

datatype cell = NaN | Str string | FrozenSet "string set"

type_synonym row = "string \<rightharpoonup> cell"

record dataframe =
  columns :: "string list"
  rows :: "row list"

text \<open>\<open>row[col]\<close>, \<open>pd.notna(v)\<close> and the text \<open>f"{v}"\<close> of a cell. How Python
  prints a frozenset depends on the hash order of its elements, so the printer of
  frozensets is a parameter \<open>fs\<close> of everything that formats cells.\<close>

definition row_get :: "row \<Rightarrow> string \<Rightarrow> error + cell" where
  "row_get r col = (case r col of None \<Rightarrow> Inl KeyError | Some v \<Rightarrow> Inr v)"

definition notna :: "cell \<Rightarrow> bool" where
  "notna v = (v \<noteq> NaN)"

definition format_cell :: "(string set \<Rightarrow> string) \<Rightarrow> cell \<Rightarrow> string" where
  "format_cell fs v = (case v of NaN \<Rightarrow> ''nan'' | Str s \<Rightarrow> s | FrozenSet a \<Rightarrow> fs a)"

text \<open>\<open>df[name] = values\<close>: an existing column is replaced in place, a new one is
  appended.\<close>

definition set_column :: "dataframe \<Rightarrow> string \<Rightarrow> cell list \<Rightarrow> dataframe" where
  "set_column df name vals =
     \<lparr>columns = (if name \<in> set (columns df) then columns df else columns df @ [name]),
      rows = map (\<lambda>(r, v). r(name \<mapsto> v)) (zip (rows df) vals)\<rparr>"

text \<open>\<open>df[cols]\<close>: the frame restricted to the selected columns.\<close>

definition select_columns :: "dataframe \<Rightarrow> string list \<Rightarrow> dataframe" where
  "select_columns df cols = \<lparr>columns = cols, rows = map (\<lambda>r. r |` set cols) (rows df)\<rparr>"

record rhapsody =
  data :: "dataframe option"
  selected_columns :: "string list option"
  working_columns :: "string list option"
  freq_rules :: "string list"
  rel_rules :: "string list"
  final_rules :: "string list"
  nUP :: "string \<rightharpoonup> int"
  nA :: "string \<rightharpoonup> int"
  transactions :: "string set list"

text \<open>\<open>RhapsodyAlgorithm.__init__\<close>.\<close>

definition init_rhapsody :: "string list option \<Rightarrow> rhapsody" where
  "init_rhapsody sel =
     \<lparr>data = None, selected_columns = sel, working_columns = None, freq_rules = [],
      rel_rules = [], final_rules = [], nUP = Map.empty, nA = Map.empty, transactions = []\<rparr>"

text \<open>\<open>load_data_from_dataframe\<close>: the object works on a copy of the caller's frame.\<close>

definition load_data_from_dataframe :: "rhapsody \<Rightarrow> dataframe \<Rightarrow> error + rhapsody" where
  "load_data_from_dataframe st df =
     (case selected_columns st of
        Some (c # cs) \<Rightarrow>
          if filter (\<lambda>col. col \<notin> set (columns df)) (c # cs) \<noteq> [] then Inl ValueError
          else Inr (st\<lparr>data := Some (select_columns df (c # cs)),
                       working_columns := Some (c # cs)\<rparr>)
      | _ \<Rightarrow> Inr (st\<lparr>data := Some df, working_columns := Some (columns df)\<rparr>))"

section \<open>Stage 1: frequent rules\<close>

text \<open>\<open>create_atoms(row)\<close>: the atoms \<open>col=value\<close> of a row over the working columns,
  missing values left out. The second scan of Stage 1 builds the same list as
  \<open>request_atoms\<close>.\<close>

fun atoms_of_columns :: "(string set \<Rightarrow> string) \<Rightarrow> string list \<Rightarrow> row \<Rightarrow> error + string list" where
  "atoms_of_columns fs [] r = Inr []"
| "atoms_of_columns fs (col # cols) r =
     ebind (row_get r col) (\<lambda>v.
     ebind (atoms_of_columns fs cols r) (\<lambda>atoms.
       Inr (if notna v then (col @ ''='' @ format_cell fs v) # atoms else atoms)))"

definition create_atoms :: "(string set \<Rightarrow> string) \<Rightarrow> string list option \<Rightarrow> row \<Rightarrow> error + string set" where
  "create_atoms fs wc r =
     (case wc of None \<Rightarrow> Inl TypeError
      | Some cols \<Rightarrow> ebind (atoms_of_columns fs cols r) (\<lambda>atoms. Inr (set atoms)))"

text \<open>\<open>df.apply(f, axis=1)\<close>: \<open>f\<close> on every row, in order.\<close>

fun apply_rows :: "(row \<Rightarrow> error + 'a) \<Rightarrow> row list \<Rightarrow> error + 'a list" where
  "apply_rows f [] = Inr []"
| "apply_rows f (r # rs) = ebind (f r) (\<lambda>y. ebind (apply_rows f rs) (\<lambda>ys. Inr (y # ys)))"

text \<open>\<open>TransactionEncoder.fit\<close>: its columns are the sorted distinct items. The encoded
  frame is kept as these columns with, for each row, the set of its true columns.\<close>

definition te_columns :: "string set list \<Rightarrow> string list" where
  "te_columns txs = sorted_list_of_set (\<Union> (set txs))"

subsection \<open>The itemset miner\<close>

text \<open>
  Modelled from the spec: \<open>apriori\<close> of the itemset-mining library (not among the
  sources), as the level-wise search of section 4.2. A candidate's support is its
  occurrence count divided by the number of rows, as a float; level 1 holds every atom;
  level \<open>k + 1\<close> holds the unions of two frequent \<open>k\<close>-itemsets that share \<open>k - 1\<close> atoms
  and have \<open>k + 1\<close>, all of whose \<open>k\<close>-subsets are frequent; the search ends at a level
  without frequent itemsets. The library rejects a minimum support that is not positive.
\<close>

definition support_count :: "string set list \<Rightarrow> string set \<Rightarrow> nat" where
  "support_count txs c = length (filter (\<lambda>t. c \<subseteq> t) txs)"

definition support :: "string set list \<Rightarrow> string set \<Rightarrow> rat" where
  "support txs c = float_div (of_nat (support_count txs c)) (of_nat (length txs))"

definition frequent :: "string set list \<Rightarrow> rat \<Rightarrow> string set list \<Rightarrow> string set list" where
  "frequent txs min_support cands = filter (\<lambda>c. min_support \<le> support txs c) cands"

definition next_candidates :: "nat \<Rightarrow> string set list \<Rightarrow> string set list" where
  "next_candidates k F =
     filter (\<lambda>c. (\<lambda>a. c - {a}) ` c \<subseteq> set F)
       (remdups (concat (map (\<lambda>a. map (\<lambda>b. a \<union> b)
          (filter (\<lambda>b. card (a \<inter> b) = k - 1 \<and> card (a \<union> b) = k + 1) F)) F)))"

fun apriori_levels ::
  "nat \<Rightarrow> string set list \<Rightarrow> rat \<Rightarrow> nat \<Rightarrow> string set list \<Rightarrow> (rat \<times> string set) list option" where
  "apriori_levels 0 txs min_support k cands = None"
| "apriori_levels (Suc fuel) txs min_support k cands =
     (let F = frequent txs min_support cands
      in if F = [] then Some []
         else map_option (\<lambda>rest. map (\<lambda>c. (support txs c, c)) F @ rest)
                (apriori_levels fuel txs min_support (Suc k) (next_candidates k F)))"

definition apriori :: "string list \<times> string set list \<Rightarrow> rat \<Rightarrow> error + (rat \<times> string set) list" where
  "apriori df_encoded min_support =
     (if min_support \<le> 0 then Inl ValueError
      else case apriori_levels (Suc (length (fst df_encoded))) (snd df_encoded) min_support 1
                  (map (\<lambda>a. {a}) (fst df_encoded)) of
             None \<Rightarrow> Inl NoReturn
           | Some res \<Rightarrow> Inr res)"

subsection \<open>Rules and their counts\<close>

text \<open>The loop over the frequent itemsets: the rule is the sorted atoms joined by the
  separator, and \<open>nUP[rule] = int(support * len(transactions))\<close>.\<close>

fun generate_rules ::
  "nat \<Rightarrow> (rat \<times> string set) list \<Rightarrow> string list \<times> (string \<rightharpoonup> int) \<Rightarrow> string list \<times> (string \<rightharpoonup> int)" where
  "generate_rules n [] acc = acc"
| "generate_rules n ((s, itemset) # its) (rules, m) =
     (let rule = join_str conj_sep (sorted_list_of_set itemset)
      in generate_rules n its (rules @ [rule], m(rule \<mapsto> py_int (float_mul s (of_nat n)))))"

text \<open>\<open>nA\<close>: zero for every rule, then one more for every row whose atoms contain the
  atoms of the rule.\<close>

fun init_counts :: "string list \<Rightarrow> (string \<rightharpoonup> int) \<Rightarrow> (string \<rightharpoonup> int)" where
  "init_counts [] m = m"
| "init_counts (rule # rules) m = init_counts rules (m(rule \<mapsto> 0))"

fun count_row :: "string set \<Rightarrow> string list \<Rightarrow> (string \<rightharpoonup> int) \<Rightarrow> error + (string \<rightharpoonup> int)" where
  "count_row request_atoms [] m = Inr m"
| "count_row request_atoms (rule # rules) m =
     (if rule_atoms rule \<subseteq> request_atoms
      then (case m rule of None \<Rightarrow> Inl KeyError
            | Some v \<Rightarrow> count_row request_atoms rules (m(rule \<mapsto> v + 1)))
      else count_row request_atoms rules m)"

fun count_rows ::
  "(string set \<Rightarrow> string) \<Rightarrow> string list option \<Rightarrow> row list \<Rightarrow> string list \<Rightarrow> (string \<rightharpoonup> int) \<Rightarrow> error + (string \<rightharpoonup> int)" where
  "count_rows fs wc [] rules m = Inr m"
| "count_rows fs wc (r # rs) rules m =
     ebind (create_atoms fs wc r) (\<lambda>request_atoms.
     ebind (count_row request_atoms rules m) (\<lambda>m'. count_rows fs wc rs rules m'))"

text \<open>\<open>RhapsodyAlgorithm._stage1\<close>. The result is the returned triple and the object
  after the call.\<close>

definition self_stage1 ::
  "(string set \<Rightarrow> string) \<Rightarrow> rhapsody \<Rightarrow> int \<Rightarrow>
     error + ((string list \<times> (string \<rightharpoonup> int) \<times> (string \<rightharpoonup> int)) \<times> rhapsody)" where
  "self_stage1 fs st T =
     (case data st of None \<Rightarrow> Inl AttributeError
      | Some df \<Rightarrow>
          ebind (apply_rows (create_atoms fs (working_columns st)) (rows df)) (\<lambda>atoms.
            let df' = set_column df ''atoms'' (map FrozenSet atoms);
                st' = st\<lparr>data := Some df', transactions := atoms\<rparr>;
                df_encoded = (te_columns atoms, atoms)
            in ebind (py_truediv T (int (length atoms))) (\<lambda>min_support.
               ebind (apriori df_encoded min_support) (\<lambda>freq_itemsets.
                 if freq_itemsets = [] then Inr (([], Map.empty, Map.empty), st')
                 else let (rules, up) = generate_rules (length atoms) freq_itemsets ([], Map.empty)
                      in ebind (count_rows fs (working_columns st') (rows df') rules
                                  (init_counts rules Map.empty)) (\<lambda>na.
                           Inr ((rules, up, na), st'))))))"

section \<open>Stage 2: reliable rules\<close>

text \<open>\<open>self.nUP[r]\<close>.\<close>

definition dict_get :: "(string \<rightharpoonup> 'a) \<Rightarrow> string \<Rightarrow> error + 'a" where
  "dict_get m k = (case m k of None \<Rightarrow> Inl KeyError | Some v \<Rightarrow> Inr v)"

text \<open>\<open>_proves_unreliability(r1, r2, T, K)\<close>: the three tests in the order of the
  source, each lookup and the division only when it is reached.\<close>

definition self_proves_unreliability :: "rhapsody \<Rightarrow> string \<Rightarrow> string \<Rightarrow> int \<Rightarrow> rat \<Rightarrow> error + bool" where
  "self_proves_unreliability st r1 r2 T K =
     (if \<not> rule_atoms r1 \<subseteq> rule_atoms r2 then Inr False
      else ebind (dict_get (nUP st) r2) (\<lambda>n2.
           if n2 < T then Inr False
           else ebind (dict_get (nUP st) r1) (\<lambda>n1.
                ebind (py_truediv n2 (n1 + n2)) (\<lambda>confidence.
                  Inr (confidence < K)))))"

fun stage2_inner :: "rhapsody \<Rightarrow> int \<Rightarrow> rat \<Rightarrow> string \<Rightarrow> string list \<Rightarrow> string set \<Rightarrow> error + string set" where
  "stage2_inner st T K r1 [] unrel = Inr unrel"
| "stage2_inner st T K r1 (r2 # rs) unrel =
     (if r1 \<noteq> r2
      then ebind (self_proves_unreliability st r1 r2 T K) (\<lambda>b.
             stage2_inner st T K r1 rs (if b then insert r1 unrel else unrel))
      else stage2_inner st T K r1 rs unrel)"

fun stage2_outer :: "rhapsody \<Rightarrow> int \<Rightarrow> rat \<Rightarrow> string list \<Rightarrow> string set \<Rightarrow> error + string set" where
  "stage2_outer st T K [] unrel = Inr unrel"
| "stage2_outer st T K (r1 # rs) unrel =
     ebind (stage2_inner st T K r1 (freq_rules st) unrel) (\<lambda>unrel'.
       stage2_outer st T K rs unrel')"

text \<open>\<open>RhapsodyAlgorithm._stage2\<close>.\<close>

definition self_stage2 :: "rhapsody \<Rightarrow> int \<Rightarrow> rat \<Rightarrow> error + string list" where
  "self_stage2 st T K =
     ebind (stage2_outer st T K (freq_rules st) {}) (\<lambda>unrel_rules.
       Inr (filter (\<lambda>rule. rule \<notin> unrel_rules) (freq_rules st)))"

section \<open>Stage 3: redundant rules\<close>

text \<open>\<open>_are_equivalent\<close> and \<open>_is_shorter\<close>.\<close>

definition self_are_equivalent :: "rhapsody \<Rightarrow> string \<Rightarrow> string \<Rightarrow> error + bool" where
  "self_are_equivalent st r1 r2 =
     ebind (dict_get (nUP st) r1) (\<lambda>n1.
     ebind (dict_get (nUP st) r2) (\<lambda>n2.
       if n1 \<noteq> n2 then Inr False
       else Inr (rule_atoms r1 \<subseteq> rule_atoms r2 \<or> rule_atoms r2 \<subseteq> rule_atoms r1)))"

definition self_is_shorter :: "string \<Rightarrow> string \<Rightarrow> bool" where
  "self_is_shorter r1 r2 = (card (rule_atoms r1) < card (rule_atoms r2))"

fun stage3_inner :: "rhapsody \<Rightarrow> string \<Rightarrow> string list \<Rightarrow> string set \<Rightarrow> error + string set" where
  "stage3_inner st r1 [] subsumed = Inr subsumed"
| "stage3_inner st r1 (r2 # rs) subsumed =
     (if r1 \<noteq> r2
      then ebind (self_are_equivalent st r1 r2) (\<lambda>eq.
             stage3_inner st r1 rs
               (if eq \<and> self_is_shorter r2 r1 then insert r1 subsumed else subsumed))
      else stage3_inner st r1 rs subsumed)"

fun stage3_outer :: "rhapsody \<Rightarrow> string list \<Rightarrow> string set \<Rightarrow> error + string set" where
  "stage3_outer st [] subsumed = Inr subsumed"
| "stage3_outer st (r1 # rs) subsumed =
     ebind (stage3_inner st r1 (rel_rules st) subsumed) (\<lambda>subsumed'.
       stage3_outer st rs subsumed')"

text \<open>\<open>sorted(rules, key=lambda x: self.nA[x])\<close>: the keys are looked up first, each
  lookup can raise; the sort is stable.\<close>

fun lookup_keys :: "(string \<rightharpoonup> int) \<Rightarrow> string list \<Rightarrow> error + (int \<times> string) list" where
  "lookup_keys m [] = Inr []"
| "lookup_keys m (r # rs) =
     ebind (dict_get m r) (\<lambda>k. ebind (lookup_keys m rs) (\<lambda>ks. Inr ((k, r) # ks)))"

definition sorted_by_key :: "(string \<rightharpoonup> int) \<Rightarrow> string list \<Rightarrow> error + string list" where
  "sorted_by_key m rules = ebind (lookup_keys m rules) (\<lambda>ks. Inr (map snd (sort_key fst ks)))"

text \<open>\<open>RhapsodyAlgorithm._stage3\<close>.\<close>

definition self_stage3 :: "rhapsody \<Rightarrow> error + string list" where
  "self_stage3 st =
     ebind (stage3_outer st (rel_rules st) {}) (\<lambda>subsumed.
       sorted_by_key (nA st) (filter (\<lambda>rule. rule \<notin> subsumed) (rel_rules st)))"

section \<open>The whole run and the standalone functions\<close>

text \<open>\<open>RhapsodyAlgorithm.run_algorithm\<close>: the only test before the stages is that data
  has been loaded.\<close>

definition run_algorithm ::
  "(string set \<Rightarrow> string) \<Rightarrow> rhapsody \<Rightarrow> int \<Rightarrow> rat \<Rightarrow>
     error + ((string list \<times> (string \<rightharpoonup> int) \<times> (string \<rightharpoonup> int)) \<times> rhapsody)" where
  "run_algorithm fs st T K =
     (if data st = None then Inl ValueError
      else ebind (self_stage1 fs st T) (\<lambda>((rules, up, na), st1).
           let st2 = st1\<lparr>freq_rules := rules, nUP := up, nA := na\<rparr>
           in ebind (self_stage2 st2 T K) (\<lambda>rel.
              let st3 = st2\<lparr>rel_rules := rel\<rparr>
              in ebind (self_stage3 st3) (\<lambda>final.
                 let st4 = st3\<lparr>final_rules := final\<rparr>
                 in Inr ((final_rules st4, nUP st4, nA st4), st4)))))"

text \<open>The module-level \<open>stage1\<close>, \<open>stage2\<close> and \<open>stage3\<close>.\<close>

definition stage1 ::
  "(string set \<Rightarrow> string) \<Rightarrow> dataframe \<Rightarrow> int \<Rightarrow> string list option \<Rightarrow>
     error + (string list \<times> (string \<rightharpoonup> int) \<times> (string \<rightharpoonup> int))" where
  "stage1 fs df T sel =
     ebind (load_data_from_dataframe (init_rhapsody sel) df) (\<lambda>st.
     ebind (self_stage1 fs st T) (\<lambda>(res, st'). Inr res))"

definition stage2 ::
  "string list \<Rightarrow> (string \<rightharpoonup> int) \<Rightarrow> (string \<rightharpoonup> int) \<Rightarrow> int \<Rightarrow> rat \<Rightarrow> error + string list" where
  "stage2 rules up na T K =
     self_stage2 ((init_rhapsody None)\<lparr>freq_rules := rules, nUP := up, nA := na\<rparr>) T K"

definition stage3 ::
  "string list \<Rightarrow> (string \<rightharpoonup> int) \<Rightarrow> (string \<rightharpoonup> int) \<Rightarrow> string list \<Rightarrow> error + string list" where
  "stage3 rel up na rules =
     self_stage3 ((init_rhapsody None)\<lparr>rel_rules := rel, nUP := up, nA := na, freq_rules := rules\<rparr>)"

section \<open>The policy evaluator\<close>

type_synonym request = "string \<rightharpoonup> string"

record policy_evaluator =
  pe_rules :: "string list"
  pe_nUP :: "string \<rightharpoonup> int"
  available_attributes :: "string set"

record evaluation =
  granted :: bool
  message :: string
  matching_rule :: "string option"
  request_details :: request
  rule_statistics :: "int option option"

text \<open>\<open>PolicyEvaluator.__init__\<close> without rules.\<close>

definition init_evaluator :: policy_evaluator where
  "init_evaluator = \<lparr>pe_rules = [], pe_nUP = Map.empty, available_attributes = {}\<rparr>"

text \<open>\<open>parse_rule\<close>: a dictionary from attribute to value, as an association list in
  insertion order; an atom without \<open>=\<close> is skipped, a repeated attribute keeps its
  place and takes the later value.\<close>

fun parse_atoms :: "string list \<Rightarrow> (string \<times> string) list \<Rightarrow> (string \<times> string) list" where
  "parse_atoms [] d = d"
| "parse_atoms (atom # atoms) d =
     (if CHR ''='' \<in> set atom
      then parse_atoms atoms
             (AList.update (strip (takeWhile (\<lambda>c. c \<noteq> CHR ''='') atom))
                           (strip (tl (dropWhile (\<lambda>c. c \<noteq> CHR ''='') atom))) d)
      else parse_atoms atoms d)"

definition parse_rule :: "string \<Rightarrow> (string \<times> string) list" where
  "parse_rule rule = parse_atoms (py_split rule conj_sep) []"

text \<open>\<open>request.get(attr, '').strip()\<close>.\<close>

definition request_value :: "request \<Rightarrow> string \<Rightarrow> string" where
  "request_value req attr = strip (case req attr of None \<Rightarrow> [] | Some v \<Rightarrow> v)"

text \<open>\<open>rule_matches_request\<close>: no attribute of the rule that the request fills in
  differs, and at least one agrees.\<close>

definition rule_matches_request :: "string \<Rightarrow> request \<Rightarrow> bool" where
  "rule_matches_request rule req =
     (let rule_attrs = parse_rule rule
      in if list_ex (\<lambda>(attr, rule_value).
                request_value req attr \<noteq> [] \<and> request_value req attr \<noteq> rule_value) rule_attrs
         then False
         else 0 < length (filter (\<lambda>(attr, rule_value).
                request_value req attr \<noteq> [] \<and> request_value req attr = rule_value) rule_attrs))"

text \<open>\<open>load_rules\<close>.\<close>

definition load_rules :: "policy_evaluator \<Rightarrow> string list \<Rightarrow> policy_evaluator" where
  "load_rules ev rs =
     ev\<lparr>pe_rules := rs,
        available_attributes := \<Union> (set (map (\<lambda>rule. set (map fst (parse_rule rule))) rs))\<rparr>"

text \<open>\<open>evaluate_request\<close>: the first rule of the list that matches grants.\<close>

definition evaluate_request :: "policy_evaluator \<Rightarrow> request \<Rightarrow> evaluation" where
  "evaluate_request ev req =
     (if pe_rules ev = [] then
        \<lparr>granted = False, message = ''No policy rules available. Please load rules first.'',
         matching_rule = None, request_details = req, rule_statistics = None\<rparr>
      else if \<not> (\<exists>key \<in> available_attributes ev. request_value req key \<noteq> []) then
        \<lparr>granted = False, message = ''Please fill in at least one attribute.'',
         matching_rule = None, request_details = req, rule_statistics = None\<rparr>
      else case find (\<lambda>rule. rule_matches_request rule req) (pe_rules ev) of
             Some rule \<Rightarrow>
               \<lparr>granted = True,
                message = ''Access Granted! Request matches a mined policy rule.'',
                matching_rule = Some rule, request_details = req,
                rule_statistics = Some (pe_nUP ev rule)\<rparr>
           | None \<Rightarrow>
               \<lparr>granted = False,
                message = ''Access Denied! No matching rule found in the mined policy.'',
                matching_rule = None, request_details = req, rule_statistics = None\<rparr>)"

section \<open>Concrete inputs\<close>

text \<open>One of the texts Python may print for a frozenset: the elements in sorted order.\<close>

definition frozenset_repr :: "string set \<Rightarrow> string" where
  "frozenset_repr s =
     ''frozenset({'' @ join_str '', '' (map (\<lambda>a. [CHR 0x27] @ a @ [CHR 0x27]) (sorted_list_of_set s)) @ ''})''"

text \<open>A log of 22 rows with one column \<open>a\<close>: the value is \<open>1\<close> in 15 rows and missing
  in 7.\<close>

definition log_15_of_22 :: dataframe where
  "log_15_of_22 =
     \<lparr>columns = [''a''],
      rows = replicate 15 [''a'' \<mapsto> Str ''1''] @ replicate 7 [''a'' \<mapsto> NaN]\<rparr>"

text \<open>The log of Scenario A of the specification: three rows over the columns \<open>a\<close> and
  \<open>b\<close>.\<close>

definition log_scenario_A :: dataframe where
  "log_scenario_A =
     \<lparr>columns = [''a'', ''b''],
      rows = [[''a'' \<mapsto> Str ''1'', ''b'' \<mapsto> Str ''2''],
              [''a'' \<mapsto> Str ''1'', ''b'' \<mapsto> Str ''2''],
              [''a'' \<mapsto> Str ''1'', ''b'' \<mapsto> Str ''3'']]\<rparr>"

text \<open>The algorithm object after \<open>load_data_from_dataframe\<close> with no column selection.\<close>

definition loaded :: "dataframe \<Rightarrow> rhapsody" where
  "loaded df = (init_rhapsody None)\<lparr>data := Some df, working_columns := Some (columns df)\<rparr>"

lemma ilog2_ge1:
  assumes "1 \<le> x"
  shows "2 powi (ilog2 x) \<le> x \<and> x < 2 powi (ilog2 x + 1)"
proof -
  define m where "m = \<lfloor>x\<rfloor>"
  have m1: "1 \<le> m" using assms by (simp add: m_def le_floor_iff)
  then have m0: "0 < m" by simp
  define b where "b = bitlen m"
  have b1: "1 \<le> b" using m0 bitlen_eq_zero_iff[of m] bitlen_nonneg[of m] by (simp add: b_def)
  from bitlen_bounds[OF m0] have lo: "2 ^ nat (b - 1) \<le> m" and hi: "m < 2 ^ nat b"
    by (simp_all add: b_def)
  have il: "ilog2 x = b - 1" using assms by (simp add: ilog2_def b_def m_def)
  have p1: "(2::rat) powi (b - 1) = 2 ^ nat (b - 1)" using b1 by (simp add: power_int_nonneg_exp)
  have p2: "(2::rat) powi b = 2 ^ nat b" using b1 by (simp add: power_int_nonneg_exp)
  have "(of_int (2 ^ nat (b - 1)) :: rat) \<le> of_int m" using lo by (simp only: of_int_le_iff)
  also have "\<dots> \<le> x" by (simp add: m_def)
  finally have A: "2 powi (b - 1) \<le> x" by (simp add: p1)
  have "m + 1 \<le> 2 ^ nat b" using hi by simp
  then have "(of_int (m + 1) :: rat) \<le> of_int (2 ^ nat b)" by (simp only: of_int_le_iff)
  moreover have "x < of_int (m + 1)" unfolding m_def using floor_correct[of x] by simp
  ultimately have B: "x < 2 powi b" by (simp add: p2)
  show ?thesis using A B il by simp
qed

lemma ilog2_lt1:
  assumes "0 < x" "x < 1"
  shows "2 powi (ilog2 x) \<le> x \<and> x < 2 powi (ilog2 x + 1)"
proof -
  define y where "y = 1 / x"
  have y1: "1 < y" using assms by (simp add: y_def)
  define m where "m = \<lceil>y\<rceil>"
  have m2: "2 \<le> m" using y1 by (simp add: m_def)
  then have m0: "0 < m - 1" by simp
  define b where "b = bitlen (m - 1)"
  have b1: "1 \<le> b" using m0 bitlen_eq_zero_iff[of "m - 1"] bitlen_nonneg[of "m - 1"] by (simp add: b_def)
  from bitlen_bounds[OF m0] have lo: "2 ^ nat (b - 1) \<le> m - 1" and hi: "m - 1 < 2 ^ nat b"
    by (simp_all add: b_def)
  have il: "ilog2 x = - b" using assms by (simp add: ilog2_def b_def m_def y_def)
  have p1: "(2::rat) powi (b - 1) = 2 ^ nat (b - 1)" using b1 by (simp add: power_int_nonneg_exp)
  have p2: "(2::rat) powi b = 2 ^ nat b" using b1 by (simp add: power_int_nonneg_exp)
  have "m \<le> 2 ^ nat b" using hi by simp
  then have "(of_int m :: rat) \<le> of_int (2 ^ nat b)" by (simp only: of_int_le_iff)
  then have "(of_int m :: rat) \<le> 2 ^ nat b" by simp
  moreover have "y \<le> of_int m" by (simp add: m_def)
  ultimately have "y \<le> 2 powi b" unfolding p2 by linarith
  then have "1 / (2 powi b) \<le> 1 / y" using y1 by (simp add: field_simps)
  then have A: "2 powi (- b) \<le> x" using assms by (simp add: y_def power_int_minus_divide)
  have "(of_int (2 ^ nat (b - 1)) :: rat) \<le> of_int (m - 1)" using lo by (simp only: of_int_le_iff)
  moreover have "of_int (m - 1) < y" unfolding m_def using ceiling_correct[of y] by simp
  ultimately have "2 powi (b - 1) < y" by (simp add: p1)
  then have "1 / y < 1 / (2 powi (b - 1))" using y1 by (simp add: field_simps)
  then have B: "x < 2 powi (- b + 1)" using assms
    by (simp add: y_def power_int_minus_divide[symmetric])
  show ?thesis using A B il by simp
qed

lemma ilog2_bounds:
  assumes "0 < x"
  shows "2 powi (ilog2 x) \<le> x" and "x < 2 powi (ilog2 x + 1)"
  using assms ilog2_ge1[of x] ilog2_lt1[of x] by (cases "1 \<le> x"; simp)+

lemma pow2_less_cancel: "(2::rat) powi a < 2 powi b \<Longrightarrow> a < b"
  using power_int_increasing[of b a "2::rat"] by (cases "a < b") auto

lemma pow2_le_cancel: "(2::rat) powi a \<le> 2 powi b \<Longrightarrow> a \<le> b"
  using power_int_strict_increasing[of b a "2::rat"] by (cases "a \<le> b") auto

lemma ilog2_less: "0 < x \<Longrightarrow> x < 2 powi k \<Longrightarrow> ilog2 x < k"
proof -
  assume a: "0 < x" "x < 2 powi k"
  have "(2::rat) powi (ilog2 x) < 2 powi k" using ilog2_bounds(1)[OF a(1)] a(2) by simp
  then show ?thesis by (rule pow2_less_cancel)
qed

lemma ilog2_ge: "0 < x \<Longrightarrow> 2 powi k \<le> x \<Longrightarrow> k \<le> ilog2 x"
proof -
  assume a: "0 < x" "2 powi k \<le> x"
  have "(2::rat) powi k < 2 powi (ilog2 x + 1)" using ilog2_bounds(2)[OF a(1)] a(2) by simp
  then have "k < ilog2 x + 1" by (rule pow2_less_cancel)
  then show ?thesis by simp
qed

lemma round_half_even_err: "\<bar>of_int (round_half_even m) - m\<bar> \<le> 1 / 2"
proof -
  have "of_int \<lfloor>m\<rfloor> \<le> m" "m < of_int \<lfloor>m\<rfloor> + 1" by linarith+
  then show ?thesis by (simp add: round_half_even_def Let_def abs_if) linarith
qed

lemma round_half_even_ge: "of_int k \<le> m \<Longrightarrow> k \<le> round_half_even m"
proof -
  assume "of_int k \<le> m"
  then have "k \<le> \<lfloor>m\<rfloor>" by (simp add: le_floor_iff)
  then show ?thesis by (auto simp: round_half_even_def Let_def)
qed

lemma round_half_even_le: "m \<le> of_int k \<Longrightarrow> round_half_even m \<le> k"
proof -
  assume a: "m \<le> of_int k"
  show ?thesis
  proof (cases "m = of_int k")
    case True then show ?thesis by (simp add: round_half_even_def)
  next
    case False
    then have "m < of_int k" using a by simp
    then have "\<lfloor>m\<rfloor> < k" by (simp add: floor_less_iff)
    then show ?thesis by (auto simp: round_half_even_def Let_def)
  qed
qed

lemma fl_round_pos_eq:
  assumes "0 < x"
  shows "fl_round x =
    of_int (round_half_even (x / 2 powi (max (ilog2 x) (- 1022) - 52))) *
      2 powi (max (ilog2 x) (- 1022) - 52)"
  using assms by (simp add: fl_round_def Let_def)

lemma fl_round_nonneg: "0 \<le> x \<Longrightarrow> 0 \<le> fl_round x"
proof (cases "x = 0")
  case True then show ?thesis by (simp add: fl_round_def)
next
  case False
  assume "0 \<le> x"
  with False have x: "0 < x" by simp
  let ?q = "(2::rat) powi (max (ilog2 x) (- 1022) - 52)"
  have q: "0 < ?q" by simp
  have "of_int 0 \<le> x / ?q" using x q by simp
  then have "0 \<le> round_half_even (x / ?q)" by (rule round_half_even_ge)
  then show ?thesis unfolding fl_round_pos_eq[OF x] using q by simp
qed

lemma fl_round_le_pow2:
  assumes x: "0 < x" and le: "x \<le> 2 powi k" and k: "- 1022 \<le> k"
  shows "fl_round x \<le> 2 powi k"
proof -
  define e where "e = max (ilog2 x) (- 1022)"
  define q where "q = (2::rat) powi (e - 52)"
  have q: "0 < q" by (simp add: q_def)
  have "(2::rat) powi (ilog2 x) \<le> 2 powi k" using ilog2_bounds(1)[OF x] le by simp
  then have "ilog2 x \<le> k" by (rule pow2_le_cancel)
  then have ek: "e \<le> k" using k by (simp add: e_def)
  define j where "j = nat (k - e + 52)"
  have pk: "(2::rat) powi k = of_int (2 ^ j) * q"
  proof -
    have "(2::rat) powi k = 2 powi (int j + (e - 52))" using ek by (simp add: j_def)
    also have "\<dots> = 2 powi (int j) * 2 powi (e - 52)" by (rule power_int_add) simp
    finally show ?thesis by (simp add: q_def)
  qed
  have "x / q \<le> of_int (2 ^ j)" using le q unfolding pk by (simp add: field_simps)
  then have "round_half_even (x / q) \<le> 2 ^ j" by (rule round_half_even_le)
  then have "(of_int (round_half_even (x / q)) :: rat) \<le> of_int (2 ^ j)"
    by (simp only: of_int_le_iff)
  then have "of_int (round_half_even (x / q)) * q \<le> of_int (2 ^ j) * q"
    using q by (simp only: mult_le_cancel_right_pos)
  then show ?thesis unfolding fl_round_pos_eq[OF x] pk q_def e_def .
qed

lemma fl_round_ge_pow2:
  assumes le: "2 powi k \<le> x" and k: "- 1022 \<le> k"
  shows "2 powi k \<le> fl_round x"
proof -
  have x: "0 < x" using le zero_less_power_int[of "2::rat" k] by linarith
  define e where "e = ilog2 x"
  have ke: "k \<le> e" unfolding e_def using x le by (rule ilog2_ge)
  then have e': "max (ilog2 x) (- 1022) = e" using k by (simp add: e_def)
  define q where "q = (2::rat) powi (e - 52)"
  have q: "0 < q" by (simp add: q_def)
  have pe: "(2::rat) powi e = of_int (2 ^ 52) * q"
  proof -
    have "(2::rat) powi e = 2 powi (52 + (e - 52))" by simp
    also have "\<dots> = 2 powi 52 * 2 powi (e - 52)" by (rule power_int_add) simp
    finally show ?thesis by (simp add: q_def)
  qed
  have "2 powi e \<le> x" unfolding e_def using x by (rule ilog2_bounds(1))
  then have "of_int (2 ^ 52) \<le> x / q" using q unfolding pe by (simp add: field_simps)
  then have "2 ^ 52 \<le> round_half_even (x / q)" by (rule round_half_even_ge)
  then have "(of_int (2 ^ 52) :: rat) \<le> of_int (round_half_even (x / q))"
    by (simp only: of_int_le_iff)
  then have "of_int (2 ^ 52) * q \<le> of_int (round_half_even (x / q)) * q"
    using q by (simp only: mult_le_cancel_right_pos)
  then have "2 powi e \<le> fl_round x" unfolding fl_round_pos_eq[OF x] e' pe q_def .
  moreover have "(2::rat) powi k \<le> 2 powi e" using ke by (simp add: power_int_increasing)
  ultimately show ?thesis by linarith
qed

lemma fl_round_err:
  assumes x: "0 < x" and le: "x < 2 powi k" and k: "- 1021 \<le> k"
  shows "\<bar>fl_round x - x\<bar> \<le> 2 powi (k - 54)"
proof -
  define e where "e = max (ilog2 x) (- 1022)"
  define q where "q = (2::rat) powi (e - 52)"
  have q: "0 < q" by (simp add: q_def)
  have "ilog2 x < k" using x le by (rule ilog2_less)
  then have ek: "e \<le> k - 1" using k by (simp add: e_def)
  have "fl_round x - x = (of_int (round_half_even (x / q)) - x / q) * q"
    unfolding fl_round_pos_eq[OF x] using q by (simp add: q_def e_def field_simps)
  then have "\<bar>fl_round x - x\<bar> = \<bar>of_int (round_half_even (x / q)) - x / q\<bar> * q"
    using q by (simp add: abs_mult)
  also have "\<dots> \<le> (1 / 2) * q"
    using round_half_even_err[of "x / q"] q by (simp only: mult_le_cancel_right_pos)
  also have "\<dots> = 2 powi (e - 53)"
  proof -
    have "(2::rat) powi (e - 52) = 2 powi (1 + (e - 53))" by simp
    also have "\<dots> = 2 powi 1 * 2 powi (e - 53)" by (rule power_int_add) simp
    finally show ?thesis by (simp add: q_def)
  qed
  also have "\<dots> \<le> 2 powi (k - 54)" using ek by (simp add: power_int_increasing)
  finally show ?thesis .
qed

lemma ebind_Inr [simp]: "ebind (Inr x) f = f x"
  by (simp add: ebind_def)

lemma ebind_Inl [simp]: "ebind (Inl e) f = Inl e"
  by (simp add: ebind_def)

lemma ebind_eq_Inr: "ebind m f = Inr y \<longleftrightarrow> (\<exists>x. m = Inr x \<and> f x = Inr y)"
  by (cases m) simp_all

lemma proves_unreliability_nUP:
  "nUP st = nUP st' \<Longrightarrow> self_proves_unreliability st r1 r2 T K = self_proves_unreliability st' r1 r2 T K"
  by (simp only: self_proves_unreliability_def)

lemma stage2_inner_Inr:
  "stage2_inner st T K r1 rs u = Inr u' \<longleftrightarrow>
     (\<forall>r2\<in>set rs. r2 \<noteq> r1 \<longrightarrow> (\<exists>b. self_proves_unreliability st r1 r2 T K = Inr b)) \<and>
     u' = (if \<exists>r2\<in>set rs. r2 \<noteq> r1 \<and> self_proves_unreliability st r1 r2 T K = Inr True
           then insert r1 u else u)"
proof (induction rs arbitrary: u)
  case Nil
  show ?case by auto
next
  case (Cons r2 rs)
  show ?case
  proof (cases "r1 = r2")
    case True
    then show ?thesis using Cons.IH[of u] by auto
  next
    case False
    show ?thesis
    proof (cases "self_proves_unreliability st r1 r2 T K")
      case (Inl e)
      then show ?thesis using False by auto
    next
      case (Inr b)
      then show ?thesis using False Cons.IH[of "if b then insert r1 u else u"]
        by (cases b) auto
    qed
  qed
qed

lemma stage2_outer_Inr:
  "stage2_outer st T K rs u = Inr u' \<longleftrightarrow>
     (\<forall>r1\<in>set rs. \<forall>r2\<in>set (freq_rules st). r2 \<noteq> r1 \<longrightarrow>
        (\<exists>b. self_proves_unreliability st r1 r2 T K = Inr b)) \<and>
     u' = u \<union> {r1 \<in> set rs. \<exists>r2\<in>set (freq_rules st). r2 \<noteq> r1 \<and>
                    self_proves_unreliability st r1 r2 T K = Inr True}"
proof (induction rs arbitrary: u)
  case Nil
  show ?case by auto
next
  case (Cons r1 rs)
  let ?ok = "\<lambda>r1. \<forall>r2\<in>set (freq_rules st). r2 \<noteq> r1 \<longrightarrow>
        (\<exists>b. self_proves_unreliability st r1 r2 T K = Inr b)"
  let ?bad = "\<lambda>r1. \<exists>r2\<in>set (freq_rules st). r2 \<noteq> r1 \<and>
                    self_proves_unreliability st r1 r2 T K = Inr True"
  have "stage2_outer st T K (r1 # rs) u = Inr u' \<longleftrightarrow>
      ?ok r1 \<and> stage2_outer st T K rs (if ?bad r1 then insert r1 u else u) = Inr u'"
    by (simp add: ebind_eq_Inr stage2_inner_Inr)
  also have "\<dots> \<longleftrightarrow> ?ok r1 \<and> (\<forall>r\<in>set rs. ?ok r) \<and>
      u' = (if ?bad r1 then insert r1 u else u) \<union> {r \<in> set rs. ?bad r}"
    by (simp only: Cons.IH)
  also have "\<dots> \<longleftrightarrow> (\<forall>r\<in>set (r1 # rs). ?ok r) \<and> u' = u \<union> {r \<in> set (r1 # rs). ?bad r}"
    by auto
  finally show ?case .
qed

lemma self_stage2_Inr:
  "self_stage2 st T K = Inr rel \<longleftrightarrow>
     (\<forall>r1\<in>set (freq_rules st). \<forall>r2\<in>set (freq_rules st). r2 \<noteq> r1 \<longrightarrow>
        (\<exists>b. self_proves_unreliability st r1 r2 T K = Inr b)) \<and>
     rel = filter (\<lambda>r1. \<not> (\<exists>r2\<in>set (freq_rules st). r2 \<noteq> r1 \<and>
                    self_proves_unreliability st r1 r2 T K = Inr True)) (freq_rules st)"
proof -
  have eq: "filter (\<lambda>rule. rule \<notin> {} \<union> {r1 \<in> set xs. P r1}) xs = filter (\<lambda>r1. \<not> P r1) xs"
    for xs :: "string list" and P
    by (rule filter_cong) auto
  have "self_stage2 st T K = Inr rel \<longleftrightarrow>
      (\<exists>u. stage2_outer st T K (freq_rules st) {} = Inr u \<and>
           rel = filter (\<lambda>rule. rule \<notin> u) (freq_rules st))"
    by (auto simp: self_stage2_def ebind_eq_Inr)
  also have "\<dots> \<longleftrightarrow>
     (\<forall>r1\<in>set (freq_rules st). \<forall>r2\<in>set (freq_rules st). r2 \<noteq> r1 \<longrightarrow>
        (\<exists>b. self_proves_unreliability st r1 r2 T K = Inr b)) \<and>
     rel = filter (\<lambda>rule. rule \<notin> {} \<union> {r1 \<in> set (freq_rules st). \<exists>r2\<in>set (freq_rules st). r2 \<noteq> r1 \<and>
                    self_proves_unreliability st r1 r2 T K = Inr True}) (freq_rules st)"
    unfolding stage2_outer_Inr by blast
  finally show ?thesis unfolding eq .
qed

lemma py_truediv_unit:
  assumes "0 < a" "a \<le> b"
  shows "py_truediv a b = Inr (float_div (of_int a) (of_int b))"
proof -
  let ?x = "(of_int a / of_int b) :: rat"
  have x: "0 < ?x" "?x \<le> 2 powi 0" using assms by simp_all
  have "fl_round ?x \<le> 2 powi 0" using x by (rule fl_round_le_pow2) simp
  moreover have "0 \<le> fl_round ?x" using x(1) by (simp add: fl_round_nonneg)
  ultimately have "\<bar>fl_round ?x\<bar> < 2 ^ 1024" by simp
  then show ?thesis using assms by (simp add: py_truediv_def float_div_def Let_def)
qed

lemma proves_unreliability_value:
  assumes "nUP st r1 = Some n1" "nUP st r2 = Some n2" "0 < T" "0 \<le> n1"
  shows "self_proves_unreliability st r1 r2 T K =
    Inr (rule_atoms r1 \<subseteq> rule_atoms r2 \<and> T \<le> n2 \<and>
         float_div (of_int n2) (of_int (n1 + n2)) < K)"
proof (cases "rule_atoms r1 \<subseteq> rule_atoms r2 \<and> T \<le> n2")
  case True
  then have "py_truediv n2 (n1 + n2) = Inr (float_div (of_int n2) (of_int (n1 + n2)))"
    using assms by (intro py_truediv_unit) simp_all
  then show ?thesis using True assms
    by (simp add: self_proves_unreliability_def dict_get_def)
next
  case False
  then show ?thesis using assms
    by (auto simp: self_proves_unreliability_def dict_get_def)
qed

lemma stage2_idem:
  assumes "stage2 rules up na T K = Inr rel"
  shows "stage2 rel up na T K = Inr rel"
proof -
  define st where "st = (init_rhapsody None)\<lparr>freq_rules := rules, nUP := up, nA := na\<rparr>"
  define st' where "st' = (init_rhapsody None)\<lparr>freq_rules := rel, nUP := up, nA := na\<rparr>"
  have fr: "freq_rules st = rules" "freq_rules st' = rel" by (simp_all add: st_def st'_def)
  have pr: "self_proves_unreliability st' r1 r2 T K = self_proves_unreliability st r1 r2 T K" for r1 r2
    by (rule proves_unreliability_nUP) (simp add: st_def st'_def)
  let ?bad = "\<lambda>rs r1. \<exists>r2\<in>set rs. r2 \<noteq> r1 \<and> self_proves_unreliability st r1 r2 T K = Inr True"
  from assms have "self_stage2 st T K = Inr rel" by (simp add: stage2_def st_def)
  then have ok: "\<forall>r1\<in>set rules. \<forall>r2\<in>set rules. r2 \<noteq> r1 \<longrightarrow>
        (\<exists>b. self_proves_unreliability st r1 r2 T K = Inr b)"
    and rel: "rel = filter (\<lambda>r1. \<not> ?bad rules r1) rules"
    unfolding self_stage2_Inr fr by blast+
  have sub: "set rel \<subseteq> set rules" by (subst rel) auto
  have "filter (\<lambda>r1. \<not> ?bad rel r1) rel = rel"
  proof (rule filter_True, rule ballI)
    fix r1 assume "r1 \<in> set rel"
    then have "\<not> ?bad rules r1" by (subst (asm) rel) simp
    then show "\<not> ?bad rel r1" using sub by blast
  qed
  moreover have "\<forall>r1\<in>set rel. \<forall>r2\<in>set rel. r2 \<noteq> r1 \<longrightarrow>
        (\<exists>b. self_proves_unreliability st r1 r2 T K = Inr b)"
    using ok sub by blast
  ultimately have "self_stage2 st' T K = Inr rel"
    unfolding self_stage2_Inr fr pr by simp
  then show ?thesis by (simp add: stage2_def st'_def)
qed

lemma stage2_value:
  assumes dom: "set rules \<subseteq> dom up" and T: "0 < T" and nn: "\<forall>r\<in>set rules. 0 \<le> the (up r)"
  shows "stage2 rules up na T K =
     Inr (filter (\<lambda>r1. \<not> (\<exists>r2\<in>set rules. r2 \<noteq> r1 \<and> rule_atoms r1 \<subseteq> rule_atoms r2 \<and>
            T \<le> the (up r2) \<and>
            float_div (of_int (the (up r2))) (of_int (the (up r1) + the (up r2))) < K)) rules)"
proof -
  define st where "st = (init_rhapsody None)\<lparr>freq_rules := rules, nUP := up, nA := na\<rparr>"
  have fr: "freq_rules st = rules" and up: "nUP st = up" by (simp_all add: st_def)
  have val: "self_proves_unreliability st r1 r2 T K =
      Inr (rule_atoms r1 \<subseteq> rule_atoms r2 \<and> T \<le> the (up r2) \<and>
           float_div (of_int (the (up r2))) (of_int (the (up r1) + the (up r2))) < K)"
    if mem: "r1 \<in> set rules" "r2 \<in> set rules" for r1 r2
  proof -
    obtain n1 n2 where n: "up r1 = Some n1" "up r2 = Some n2" using mem dom by blast
    have "0 \<le> n1" using nn mem(1) n(1) by force
    then show ?thesis
      using proves_unreliability_value[of st r1 n1 r2 n2 T K] n T by (simp add: up)
  qed
  have "self_stage2 st T K = Inr (filter (\<lambda>r1. \<not> (\<exists>r2\<in>set rules. r2 \<noteq> r1 \<and>
          self_proves_unreliability st r1 r2 T K = Inr True)) rules)"
    unfolding self_stage2_Inr fr using val by simp
  also have "filter (\<lambda>r1. \<not> (\<exists>r2\<in>set rules. r2 \<noteq> r1 \<and>
          self_proves_unreliability st r1 r2 T K = Inr True)) rules =
     filter (\<lambda>r1. \<not> (\<exists>r2\<in>set rules. r2 \<noteq> r1 \<and> rule_atoms r1 \<subseteq> rule_atoms r2 \<and>
            T \<le> the (up r2) \<and>
            float_div (of_int (the (up r2))) (of_int (the (up r1) + the (up r2))) < K)) rules"
    by (rule filter_cong) (auto simp: val)
  finally show ?thesis by (simp add: stage2_def st_def)
qed

lemma are_equivalent_value:
  assumes "nUP st r1 = Some n1" "nUP st r2 = Some n2"
  shows "self_are_equivalent st r1 r2 =
    Inr (n1 = n2 \<and> (rule_atoms r1 \<subseteq> rule_atoms r2 \<or> rule_atoms r2 \<subseteq> rule_atoms r1))"
  using assms by (simp add: self_are_equivalent_def dict_get_def)

lemma stage3_inner_Inr:
  "stage3_inner st r1 rs u = Inr u' \<longleftrightarrow>
     (\<forall>r2\<in>set rs. r2 \<noteq> r1 \<longrightarrow> (\<exists>b. self_are_equivalent st r1 r2 = Inr b)) \<and>
     u' = (if \<exists>r2\<in>set rs. r2 \<noteq> r1 \<and> self_are_equivalent st r1 r2 = Inr True \<and> self_is_shorter r2 r1
           then insert r1 u else u)"
proof (induction rs arbitrary: u)
  case Nil
  show ?case by auto
next
  case (Cons r2 rs)
  show ?case
  proof (cases "r1 = r2")
    case True
    then show ?thesis using Cons.IH[of u] by auto
  next
    case False
    show ?thesis
    proof (cases "self_are_equivalent st r1 r2")
      case (Inl e)
      then show ?thesis using False by auto
    next
      case (Inr b)
      then show ?thesis
        using False Cons.IH[of "if b \<and> self_is_shorter r2 r1 then insert r1 u else u"]
        by (cases "b \<and> self_is_shorter r2 r1") auto
    qed
  qed
qed

lemma stage3_outer_Inr:
  "stage3_outer st rs u = Inr u' \<longleftrightarrow>
     (\<forall>r1\<in>set rs. \<forall>r2\<in>set (rel_rules st). r2 \<noteq> r1 \<longrightarrow>
        (\<exists>b. self_are_equivalent st r1 r2 = Inr b)) \<and>
     u' = u \<union> {r1 \<in> set rs. \<exists>r2\<in>set (rel_rules st). r2 \<noteq> r1 \<and>
                    self_are_equivalent st r1 r2 = Inr True \<and> self_is_shorter r2 r1}"
proof (induction rs arbitrary: u)
  case Nil
  show ?case by auto
next
  case (Cons r1 rs)
  let ?ok = "\<lambda>r1. \<forall>r2\<in>set (rel_rules st). r2 \<noteq> r1 \<longrightarrow>
        (\<exists>b. self_are_equivalent st r1 r2 = Inr b)"
  let ?bad = "\<lambda>r1. \<exists>r2\<in>set (rel_rules st). r2 \<noteq> r1 \<and>
                    self_are_equivalent st r1 r2 = Inr True \<and> self_is_shorter r2 r1"
  have "stage3_outer st (r1 # rs) u = Inr u' \<longleftrightarrow>
      ?ok r1 \<and> stage3_outer st rs (if ?bad r1 then insert r1 u else u) = Inr u'"
    by (simp add: ebind_eq_Inr stage3_inner_Inr)
  also have "\<dots> \<longleftrightarrow> ?ok r1 \<and> (\<forall>r\<in>set rs. ?ok r) \<and>
      u' = (if ?bad r1 then insert r1 u else u) \<union> {r \<in> set rs. ?bad r}"
    by (simp only: Cons.IH)
  also have "\<dots> \<longleftrightarrow> (\<forall>r\<in>set (r1 # rs). ?ok r) \<and> u' = u \<union> {r \<in> set (r1 # rs). ?bad r}"
    by auto
  finally show ?case .
qed

lemma lookup_keys_value:
  "set rs \<subseteq> dom m \<Longrightarrow> lookup_keys m rs = Inr (map (\<lambda>r. (the (m r), r)) rs)"
  by (induction rs) (auto simp: dict_get_def)

lemma insort_key_pairs:
  "\<forall>p\<in>set ps. fst p = f (snd p) \<Longrightarrow>
     map snd (insort_key fst (f r, r) ps) = insort_key f r (map snd ps)"
  by (induction ps) auto

lemma set_insort_key_pairs:
  "\<forall>p\<in>set ps. fst p = f (snd p) \<Longrightarrow> \<forall>p\<in>set (insort_key fst (f r, r) ps). fst p = f (snd p)"
  by (simp add: set_insort_key)

lemma sort_key_pairs:
  "map snd (sort_key fst (map (\<lambda>r. (f r, r)) rs)) = sort_key f rs \<and>
   (\<forall>p\<in>set (sort_key fst (map (\<lambda>r. (f r, r)) rs)). fst p = f (snd p))"
proof (induction rs)
  case Nil
  show ?case by simp
next
  case (Cons r rs)
  then show ?case by (simp add: insort_key_pairs set_insort_key)
qed

lemma sorted_by_key_value:
  "set rs \<subseteq> dom m \<Longrightarrow> sorted_by_key m rs = Inr (sort_key (\<lambda>r. the (m r)) rs)"
  using sort_key_pairs[of "\<lambda>r. the (m r)" rs]
  by (simp add: sorted_by_key_def lookup_keys_value)

lemma stage3_value:
  assumes up: "set rel \<subseteq> dom up" and na: "set rel \<subseteq> dom na"
  shows "stage3 rel up na rules =
     Inr (sort_key (\<lambda>r. the (na r))
       (filter (\<lambda>r1. \<not> (\<exists>r2\<in>set rel. r2 \<noteq> r1 \<and> up r1 = up r2 \<and>
            (rule_atoms r1 \<subseteq> rule_atoms r2 \<or> rule_atoms r2 \<subseteq> rule_atoms r1) \<and>
            card (rule_atoms r2) < card (rule_atoms r1))) rel))"
proof -
  define st where "st = (init_rhapsody None)\<lparr>rel_rules := rel, nUP := up, nA := na, freq_rules := rules\<rparr>"
  have fr: "rel_rules st = rel" and [simp]: "nUP st = up" "nA st = na" by (simp_all add: st_def)
  let ?sub = "\<lambda>r1. \<exists>r2\<in>set rel. r2 \<noteq> r1 \<and> up r1 = up r2 \<and>
            (rule_atoms r1 \<subseteq> rule_atoms r2 \<or> rule_atoms r2 \<subseteq> rule_atoms r1) \<and>
            card (rule_atoms r2) < card (rule_atoms r1)"
  have val: "self_are_equivalent st r1 r2 =
      Inr (up r1 = up r2 \<and> (rule_atoms r1 \<subseteq> rule_atoms r2 \<or> rule_atoms r2 \<subseteq> rule_atoms r1))"
    if mem: "r1 \<in> set rel" "r2 \<in> set rel" for r1 r2
  proof -
    obtain n1 n2 where n: "up r1 = Some n1" "up r2 = Some n2" using mem up by blast
    show ?thesis using are_equivalent_value[of st r1 n1 r2 n2] n by simp
  qed
  have "stage3_outer st rel {} = Inr ({} \<union> {r1 \<in> set rel. \<exists>r2\<in>set rel. r2 \<noteq> r1 \<and>
                    self_are_equivalent st r1 r2 = Inr True \<and> self_is_shorter r2 r1})"
    unfolding stage3_outer_Inr fr using val by simp
  moreover have "filter (\<lambda>rule. rule \<notin> {} \<union> {r1 \<in> set rel. \<exists>r2\<in>set rel. r2 \<noteq> r1 \<and>
                    self_are_equivalent st r1 r2 = Inr True \<and> self_is_shorter r2 r1}) rel =
      filter (\<lambda>r1. \<not> ?sub r1) rel"
    by (rule filter_cong) (auto simp: val self_is_shorter_def)
  ultimately have "self_stage3 st = sorted_by_key na (filter (\<lambda>r1. \<not> ?sub r1) rel)"
    by (simp add: self_stage3_def fr)
  also have "\<dots> = Inr (sort_key (\<lambda>r. the (na r)) (filter (\<lambda>r1. \<not> ?sub r1) rel))"
    using na by (intro sorted_by_key_value) auto
  finally show ?thesis by (simp add: stage3_def st_def)
qed

text \<open>C4\<close>
theorem stage2_removes_exactly_the_unreliable:
  assumes "set rules \<subseteq> dom up" and "0 < T" and "\<forall>r\<in>set rules. 0 \<le> the (up r)"
  shows "stage2 rules up na T K =
           Inr (filter (\<lambda>r1. \<not> (\<exists>r2\<in>set rules. r2 \<noteq> r1 \<and>
                  rule_atoms r1 \<subseteq> rule_atoms r2 \<and>
                  T \<le> the (up r2) \<and>
                  float_div (of_int (the (up r2))) (of_int (the (up r1) + the (up r2))) < K)) rules)
       \<and> stage2 [''a=1'', ''a=1'' @ conj_sep @ ''b=2'']
            [''a=1'' \<mapsto> 3, ''a=1'' @ conj_sep @ ''b=2'' \<mapsto> 2] na 2 (fl_round (4 / 5)) =
           Inr [''a=1'' @ conj_sep @ ''b=2'']"
proof
  show "stage2 rules up na T K =
           Inr (filter (\<lambda>r1. \<not> (\<exists>r2\<in>set rules. r2 \<noteq> r1 \<and>
                  rule_atoms r1 \<subseteq> rule_atoms r2 \<and>
                  T \<le> the (up r2) \<and>
                  float_div (of_int (the (up r2))) (of_int (the (up r1) + the (up r2))) < K)) rules)"
    using assms by (rule stage2_value)
next
  let ?rs = "[''a=1'', ''a=1'' @ conj_sep @ ''b=2'']"
  let ?up = "[''a=1'' \<mapsto> 3::int, ''a=1'' @ conj_sep @ ''b=2'' \<mapsto> 2]"
  have e: "filter (\<lambda>r1. \<not> (\<exists>r2\<in>set ?rs. r2 \<noteq> r1 \<and>
                  rule_atoms r1 \<subseteq> rule_atoms r2 \<and>
                  2 \<le> the (?up r2) \<and>
                  float_div (of_int (the (?up r2))) (of_int (the (?up r1) + the (?up r2))) < fl_round (4 / 5))) ?rs
           = [''a=1'' @ conj_sep @ ''b=2'']"
    by code_simp
  have "stage2 ?rs ?up na 2 (fl_round (4 / 5)) = Inr (filter (\<lambda>r1. \<not> (\<exists>r2\<in>set ?rs. r2 \<noteq> r1 \<and>
                  rule_atoms r1 \<subseteq> rule_atoms r2 \<and>
                  2 \<le> the (?up r2) \<and>
                  float_div (of_int (the (?up r2))) (of_int (the (?up r1) + the (?up r2))) < fl_round (4 / 5))) ?rs)"
    by (rule stage2_value) (simp_all add: conj_sep_def)
  then show "stage2 ?rs ?up na 2 (fl_round (4 / 5)) = Inr [''a=1'' @ conj_sep @ ''b=2'']"
    by (simp only: e)
qed

theorem stage2_removes_exactly_the_unreliable_witness:
  "stage2 [''a=1'', ''b=2'', ''a=1'' @ conj_sep @ ''b=2'']
      [''a=1'' \<mapsto> 9, ''b=2'' \<mapsto> 2, ''a=1'' @ conj_sep @ ''b=2'' \<mapsto> 2] Map.empty 2 (1 / 2)
   = Inr [''b=2'', ''a=1'' @ conj_sep @ ''b=2'']"
proof -
  let ?rs = "[''a=1'', ''b=2'', ''a=1'' @ conj_sep @ ''b=2'']"
  let ?up = "[''a=1'' \<mapsto> 9::int, ''b=2'' \<mapsto> 2, ''a=1'' @ conj_sep @ ''b=2'' \<mapsto> 2]"
  have h1: "set ?rs \<subseteq> dom ?up" by (simp add: conj_sep_def)
  have h2: "(0::int) < 2" by simp
  have h3: "\<forall>r\<in>set ?rs. 0 \<le> the (?up r)" by (simp add: conj_sep_def)
  have e: "filter (\<lambda>r1. \<not> (\<exists>r2\<in>set ?rs. r2 \<noteq> r1 \<and>
                  rule_atoms r1 \<subseteq> rule_atoms r2 \<and>
                  2 \<le> the (?up r2) \<and>
                  float_div (of_int (the (?up r2))) (of_int (the (?up r1) + the (?up r2))) < 1 / 2)) ?rs
           = [''b=2'', ''a=1'' @ conj_sep @ ''b=2'']"
    by code_simp
  show ?thesis
    using stage2_removes_exactly_the_unreliable[OF h1 h2 h3, of Map.empty "1 / 2", THEN conjunct1]
    by (simp only: e)
qed

text \<open>C8\<close>
theorem stage2_idempotent:
  "stage2 rules up na T K = Inr rel \<Longrightarrow> stage2 rel up na T K = Inr rel"
  by (rule stage2_idem)

theorem stage2_idempotent_witness:
  "stage2 [''a=1'', ''b=2'', ''a=1'' @ conj_sep @ ''b=2'']
      [''a=1'' \<mapsto> 9, ''b=2'' \<mapsto> 2, ''a=1'' @ conj_sep @ ''b=2'' \<mapsto> 2] Map.empty 2 (1 / 2)
     = Inr [''b=2'', ''a=1'' @ conj_sep @ ''b=2'']
   \<and> stage2 [''b=2'', ''a=1'' @ conj_sep @ ''b=2'']
      [''a=1'' \<mapsto> 9, ''b=2'' \<mapsto> 2, ''a=1'' @ conj_sep @ ''b=2'' \<mapsto> 2] Map.empty 2 (1 / 2)
     = Inr [''b=2'', ''a=1'' @ conj_sep @ ''b=2'']"
proof -
  have h: "stage2 [''a=1'', ''b=2'', ''a=1'' @ conj_sep @ ''b=2'']
      [''a=1'' \<mapsto> 9, ''b=2'' \<mapsto> 2, ''a=1'' @ conj_sep @ ''b=2'' \<mapsto> 2] Map.empty 2 (1 / 2)
     = Inr [''b=2'', ''a=1'' @ conj_sep @ ''b=2'']"
    by code_simp
  show ?thesis using h stage2_idempotent[OF h] by simp
qed

text \<open>
  Claim C5. Stage 3 removes a reliable rule \<open>r1\<close> exactly when another reliable rule
  \<open>r2\<close> has the same \<open>nUP\<close>, one atom set contained in the other, and fewer atoms;
  so no rule of the final list has a strictly shorter equivalent rule in the final
  list. The rules are keys of \<open>nUP\<close> and \<open>nA\<close>, as they are after Stage 1.
\<close>

theorem stage3_removes_exactly_the_subsumed:
  assumes "set rel \<subseteq> dom up" and "set rel \<subseteq> dom na"
  shows "\<exists>final. stage3 rel up na rules = Inr final \<and>
           set final = {r1 \<in> set rel. \<not> (\<exists>r2\<in>set rel. r2 \<noteq> r1 \<and> up r1 = up r2 \<and>
              (rule_atoms r1 \<subseteq> rule_atoms r2 \<or> rule_atoms r2 \<subseteq> rule_atoms r1) \<and>
              card (rule_atoms r2) < card (rule_atoms r1))} \<and>
           \<not> (\<exists>r1\<in>set final. \<exists>r2\<in>set final. up r1 = up r2 \<and>
              (rule_atoms r1 \<subseteq> rule_atoms r2 \<or> rule_atoms r2 \<subseteq> rule_atoms r1) \<and>
              card (rule_atoms r2) < card (rule_atoms r1))"
proof -
  let ?sub = "\<lambda>r1. \<exists>r2\<in>set rel. r2 \<noteq> r1 \<and> up r1 = up r2 \<and>
              (rule_atoms r1 \<subseteq> rule_atoms r2 \<or> rule_atoms r2 \<subseteq> rule_atoms r1) \<and>
              card (rule_atoms r2) < card (rule_atoms r1)"
  let ?final = "sort_key (\<lambda>r. the (na r)) (filter (\<lambda>r1. \<not> ?sub r1) rel)"
  have run: "stage3 rel up na rules = Inr ?final"
    using assms by (rule stage3_value)
  have mem: "set ?final = {r1 \<in> set rel. \<not> ?sub r1}"
    by (simp only: set_sort set_filter)
  have minimal: "\<not> (\<exists>r1\<in>set ?final. \<exists>r2\<in>set ?final. up r1 = up r2 \<and>
              (rule_atoms r1 \<subseteq> rule_atoms r2 \<or> rule_atoms r2 \<subseteq> rule_atoms r1) \<and>
              card (rule_atoms r2) < card (rule_atoms r1))"
  proof
    assume "\<exists>r1\<in>set ?final. \<exists>r2\<in>set ?final. up r1 = up r2 \<and>
              (rule_atoms r1 \<subseteq> rule_atoms r2 \<or> rule_atoms r2 \<subseteq> rule_atoms r1) \<and>
              card (rule_atoms r2) < card (rule_atoms r1)"
    then obtain r1 r2 where r: "r1 \<in> set ?final" "r2 \<in> set ?final" "up r1 = up r2"
        "rule_atoms r1 \<subseteq> rule_atoms r2 \<or> rule_atoms r2 \<subseteq> rule_atoms r1"
        "card (rule_atoms r2) < card (rule_atoms r1)"
      by blast
    from r(1) have keep: "\<not> ?sub r1" unfolding mem by simp
    from r(2) have "r2 \<in> set rel" unfolding mem by simp
    moreover have "r2 \<noteq> r1" using r(5) by auto
    ultimately have "?sub r1" using r(3,4,5) by blast
    with keep show False by simp
  qed
  from run mem minimal show ?thesis by blast
qed

theorem stage3_removes_exactly_the_subsumed_witness:
  "\<exists>final. stage3 [''a=1'' @ conj_sep @ ''b=2'', ''a=1'', ''c=3'']
       [''a=1'' @ conj_sep @ ''b=2'' \<mapsto> 2, ''a=1'' \<mapsto> 2, ''c=3'' \<mapsto> 1]
       [''a=1'' @ conj_sep @ ''b=2'' \<mapsto> 2, ''a=1'' \<mapsto> 2, ''c=3'' \<mapsto> 1] [] = Inr final \<and>
     set final = {''a=1'', ''c=3''}"
proof -
  let ?rel = "[''a=1'' @ conj_sep @ ''b=2'', ''a=1'', ''c=3'']"
  let ?up = "[''a=1'' @ conj_sep @ ''b=2'' \<mapsto> 2::int, ''a=1'' \<mapsto> 2, ''c=3'' \<mapsto> 1]"
  have h: "set ?rel \<subseteq> dom ?up" by (simp add: conj_sep_def)
  obtain final where f: "stage3 ?rel ?up ?up [] = Inr final"
    using stage3_removes_exactly_the_subsumed[OF h h, of "[]"] by blast
  have run: "stage3 ?rel ?up ?up [] = Inr [''c=3'', ''a=1'']" by code_simp
  with f have "final = [''c=3'', ''a=1'']" by simp
  then have "set final = {''a=1'', ''c=3''}" by auto
  with f show ?thesis by blast
qed

text \<open>
  Claim C6. The list Stage 3 returns is sorted by \<open>nA\<close>, smallest first, and rules with
  the same \<open>nA\<close> stand in the order they have in the reliable list.
\<close>

theorem stage3_sorted_by_nA_stable:
  assumes "set rel \<subseteq> dom up" and "set rel \<subseteq> dom na"
  shows "\<exists>final. stage3 rel up na rules = Inr final \<and>
           sorted (map (\<lambda>r. the (na r)) final) \<and>
           (\<forall>k. filter (\<lambda>r. na r = Some k) final =
                filter (\<lambda>r. na r = Some k \<and> r \<in> set final) rel)"
proof -
  let ?sub = "\<lambda>r1. \<exists>r2\<in>set rel. r2 \<noteq> r1 \<and> up r1 = up r2 \<and>
              (rule_atoms r1 \<subseteq> rule_atoms r2 \<or> rule_atoms r2 \<subseteq> rule_atoms r1) \<and>
              card (rule_atoms r2) < card (rule_atoms r1)"
  let ?short = "filter (\<lambda>r1. \<not> ?sub r1) rel"
  let ?final = "sort_key (\<lambda>r. the (na r)) ?short"
  have run: "stage3 rel up na rules = Inr ?final"
    using assms by (rule stage3_value)
  have srt: "sorted (map (\<lambda>r. the (na r)) ?final)" by (rule sorted_sort_key)
  have mem: "set ?final = set ?short" by (rule set_sort)
  have stable: "filter (\<lambda>r. na r = Some k) ?final =
      filter (\<lambda>r. na r = Some k \<and> r \<in> set ?final) rel" for k
  proof -
    have key: "na r = Some k \<longleftrightarrow> the (na r) = k" if "r \<in> set rel" for r
      using that assms(2) by auto
    have "filter (\<lambda>r. na r = Some k) ?final = filter (\<lambda>r. the (na r) = k) ?final"
      by (rule filter_cong) (auto simp: key)
    also have "\<dots> = filter (\<lambda>r. the (na r) = k) ?short" by (rule sort_key_stable)
    also have "\<dots> = filter (\<lambda>r. the (na r) = k \<and> \<not> ?sub r) rel"
      by (simp add: conj_commute)
    also have "\<dots> = filter (\<lambda>r. na r = Some k \<and> r \<in> set ?final) rel"
      unfolding mem by (rule filter_cong) (auto simp: key)
    finally show ?thesis .
  qed
  from run srt stable show ?thesis by blast
qed

theorem stage3_sorted_by_nA_stable_witness:
  "\<exists>final. stage3 [''c=3'', ''a=1'', ''b=2''] [''c=3'' \<mapsto> 3, ''a=1'' \<mapsto> 5, ''b=2'' \<mapsto> 4]
       [''c=3'' \<mapsto> 7, ''a=1'' \<mapsto> 2, ''b=2'' \<mapsto> 7] [] = Inr final \<and>
     sorted (map (\<lambda>r. the ([''c=3'' \<mapsto> 7::int, ''a=1'' \<mapsto> 2, ''b=2'' \<mapsto> 7] r)) final) \<and>
     filter (\<lambda>r. [''c=3'' \<mapsto> 7::int, ''a=1'' \<mapsto> 2, ''b=2'' \<mapsto> 7] r = Some 7) final = [''c=3'', ''b=2'']"
proof -
  let ?rel = "[''c=3'', ''a=1'', ''b=2'']"
  let ?up = "[''c=3'' \<mapsto> 3::int, ''a=1'' \<mapsto> 5, ''b=2'' \<mapsto> 4]"
  let ?na = "[''c=3'' \<mapsto> 7::int, ''a=1'' \<mapsto> 2, ''b=2'' \<mapsto> 7]"
  have h1: "set ?rel \<subseteq> dom ?up" by simp
  have h2: "set ?rel \<subseteq> dom ?na" by simp
  obtain final where f: "stage3 ?rel ?up ?na [] = Inr final"
      "sorted (map (\<lambda>r. the (?na r)) final)"
      "\<forall>k. filter (\<lambda>r. ?na r = Some k) final = filter (\<lambda>r. ?na r = Some k \<and> r \<in> set final) ?rel"
    using stage3_sorted_by_nA_stable[OF h1 h2, of "[]"] by blast
  have run: "stage3 ?rel ?up ?na [] = Inr [''a=1'', ''c=3'', ''b=2'']" by code_simp
  with f(1) have fin: "final = [''a=1'', ''c=3'', ''b=2'']" by simp
  from f(3) have "filter (\<lambda>r. ?na r = Some 7) final = filter (\<lambda>r. ?na r = Some 7 \<and> r \<in> set final) ?rel"
    by blast
  also have "\<dots> = [''c=3'', ''b=2'']" unfolding fin by simp
  finally show ?thesis using f(1,2) by blast
qed

text \<open>
  Claim C10. The evaluator does not ask for every atom of a rule: the rule
  \<open>a=1 \<and> b=2\<close> matches the request that gives only \<open>a = 1\<close>, and the request is
  granted, although \<open>b=2\<close> is not among the request's atoms.
\<close>

theorem evaluator_grants_on_partial_match:
  "\<exists>rule req.
      2 \<le> card (rule_atoms rule) \<and>
      list_ex (\<lambda>(attr, v). request_value req attr = v \<and> v \<noteq> []) (parse_rule rule) \<and>
      list_all (\<lambda>(attr, v). request_value req attr = v \<or> request_value req attr = []) (parse_rule rule) \<and>
      rule_matches_request rule req \<and>
      granted (evaluate_request (load_rules init_evaluator [rule]) req) \<and>
      matching_rule (evaluate_request (load_rules init_evaluator [rule]) req) = Some rule \<and>
      \<not> rule_atoms rule \<subseteq> {attr @ ''='' @ v | attr v. req attr = Some v}"
proof -
  let ?rule = "''a=1'' @ conj_sep @ ''b=2''"
  let ?req = "[''a'' \<mapsto> ''1''] :: request"
  have 1: "2 \<le> card (rule_atoms ?rule)" by code_simp
  have 2: "list_ex (\<lambda>(attr, v). request_value ?req attr = v \<and> v \<noteq> []) (parse_rule ?rule)"
    by code_simp
  have 3: "list_all (\<lambda>(attr, v). request_value ?req attr = v \<or> request_value ?req attr = []) (parse_rule ?rule)"
    by code_simp
  have 4: "rule_matches_request ?rule ?req" by code_simp
  have 5: "granted (evaluate_request (load_rules init_evaluator [?rule]) ?req)" by code_simp
  have 6: "matching_rule (evaluate_request (load_rules init_evaluator [?rule]) ?req) = Some ?rule"
    by code_simp
  have at: "rule_atoms ?rule = {''a=1'', ''b=2''}" by code_simp
  have 7: "\<not> rule_atoms ?rule \<subseteq> {attr @ ''='' @ v | attr v. ?req attr = Some v}"
  proof
    assume "rule_atoms ?rule \<subseteq> {attr @ ''='' @ v | attr v. ?req attr = Some v}"
    then have "''b=2'' \<in> {attr @ ''='' @ v | attr v. ?req attr = Some v}" unfolding at by blast
    then obtain attr v where a: "''b=2'' = attr @ ''='' @ v" and b: "?req attr = Some v" by blast
    from b have "attr = ''a'' \<and> v = ''1''" by (simp split: if_splits)
    with a show False by simp
  qed
  from 1 2 3 4 5 6 7 show ?thesis by blast
qed

lemma load_loaded: "load_data_from_dataframe (init_rhapsody None) df = Inr (loaded df)"
  by (simp add: load_data_from_dataframe_def loaded_def init_rhapsody_def)

text \<open>
  Claim C2, evaluated on the log of 22 rows: Stage 1 finds the one rule \<open>a=1\<close>; 15
  transactions contain its atom, and \<open>nUP\<close> of the rule is 14, because the float product
  \<open>(15 / 22) * 22\<close> lies just below 15 and \<open>int\<close> truncates it.
\<close>

theorem nUP_is_below_the_count:
  "(case self_stage1 fs (loaded log_15_of_22) 1 of
      Inl e \<Rightarrow> False
    | Inr ((rules, up, na), st') \<Rightarrow>
        rules = [''a=1''] \<and> up ''a=1'' = Some 14 \<and>
        length (filter (\<lambda>t. rule_atoms ''a=1'' \<subseteq> t) (transactions st')) = 15)"
  by code_simp

text \<open>
  Claim C3, evaluated on the same log: the second scan counts 15 rows for the rule
  \<open>a=1\<close>, the count taken from the itemset miner's support is 14.
\<close>

theorem nA_differs_from_nUP:
  "(case stage1 fs log_15_of_22 1 None of
      Inl e \<Rightarrow> False
    | Inr (rules, up, na) \<Rightarrow> rules = [''a=1''] \<and> na ''a=1'' = Some 15 \<and> up ''a=1'' = Some 14)"
  by code_simp

lemma apply_rows_length: "apply_rows f rs = Inr ys \<Longrightarrow> length ys = length rs"
  by (induction rs arbitrary: ys) (auto simp: ebind_eq_Inr)

lemma self_stage1_state:
  assumes "self_stage1 fs st T = Inr (res, st')" and "data st = Some df"
  shows "\<exists>atoms. apply_rows (create_atoms fs (working_columns st)) (rows df) = Inr atoms \<and>
           st' = st\<lparr>data := Some (set_column df ''atoms'' (map FrozenSet atoms)),
                     transactions := atoms\<rparr>"
proof -
  from assms obtain atoms where
    a: "apply_rows (create_atoms fs (working_columns st)) (rows df) = Inr atoms"
    by (auto simp: self_stage1_def ebind_eq_Inr)
  let ?st' = "st\<lparr>data := Some (set_column df ''atoms'' (map FrozenSet atoms)), transactions := atoms\<rparr>"
  from assms a have "st' = ?st'"
    by (auto simp: self_stage1_def ebind_eq_Inr Let_def split: if_splits prod.splits)
  with a show ?thesis by blast
qed

text \<open>
  Claim C9, as the code has it. When Stage 1 completes, the loaded frame has kept its
  rows in number and order, and every cell of every column other than \<open>atoms\<close>; but the
  frame is changed: the atom set of each row is stored in a column \<open>atoms\<close>, appended
  to the columns or written over a loaded column of that name. Of the object, only the
  frame and the transaction list change.
\<close>

theorem stage1_stores_atoms_column:
  assumes "self_stage1 fs st T = Inr (res, st')" and "data st = Some df"
  shows "\<exists>df'. data st' = Some df' \<and>
           columns df' = (if ''atoms'' \<in> set (columns df) then columns df
                          else columns df @ [''atoms'']) \<and>
           length (rows df') = length (rows df) \<and>
           length (transactions st') = length (rows df) \<and>
           (\<forall>i<length (rows df). \<forall>c. c \<noteq> ''atoms'' \<longrightarrow> (rows df' ! i) c = (rows df ! i) c) \<and>
           (\<forall>i<length (rows df). (rows df' ! i) ''atoms'' = Some (FrozenSet (transactions st' ! i))) \<and>
           st' = st\<lparr>data := Some df', transactions := transactions st'\<rparr>"
proof -
  from self_stage1_state[OF assms] obtain atoms where
    a: "apply_rows (create_atoms fs (working_columns st)) (rows df) = Inr atoms" and
    s: "st' = st\<lparr>data := Some (set_column df ''atoms'' (map FrozenSet atoms)), transactions := atoms\<rparr>"
    by blast
  let ?df' = "set_column df ''atoms'' (map FrozenSet atoms)"
  have len: "length atoms = length (rows df)" using a by (rule apply_rows_length)
  have 1: "data st' = Some ?df'" by (simp add: s)
  have 2: "columns ?df' = (if ''atoms'' \<in> set (columns df) then columns df
                          else columns df @ [''atoms''])"
    by (simp add: set_column_def)
  have 3: "length (rows ?df') = length (rows df)" by (simp add: set_column_def len)
  have 4: "length (transactions st') = length (rows df)" by (simp add: s len)
  have row: "rows ?df' ! i = (rows df ! i)(''atoms'' \<mapsto> FrozenSet (atoms ! i))"
    if "i < length (rows df)" for i
    using that len by (simp add: set_column_def)
  have 5: "\<forall>i<length (rows df). \<forall>c. c \<noteq> ''atoms'' \<longrightarrow> (rows ?df' ! i) c = (rows df ! i) c"
    by (simp add: row)
  have 6: "\<forall>i<length (rows df). (rows ?df' ! i) ''atoms'' = Some (FrozenSet (transactions st' ! i))"
    by (simp add: row s)
  have 7: "st' = st\<lparr>data := Some ?df', transactions := transactions st'\<rparr>" by (simp add: s)
  from 1 2 3 4 5 6 7 show ?thesis by blast
qed

theorem stage1_stores_atoms_column_witness:
  "\<exists>res st' df'. self_stage1 frozenset_repr (loaded log_scenario_A) 2 = Inr (res, st') \<and>
      data st' = Some df' \<and> columns df' = [''a'', ''b'', ''atoms''] \<and> length (rows df') = 3"
proof -
  have "\<not> isl (self_stage1 frozenset_repr (loaded log_scenario_A) 2)" by code_simp
  then obtain res st' where
    run: "self_stage1 frozenset_repr (loaded log_scenario_A) 2 = Inr (res, st')"
    by (cases "self_stage1 frozenset_repr (loaded log_scenario_A) 2") auto
  have d: "data (loaded log_scenario_A) = Some log_scenario_A" by (simp add: loaded_def)
  from stage1_stores_atoms_column[OF run d] obtain df' where
    "data st' = Some df'"
    "columns df' = (if ''atoms'' \<in> set (columns log_scenario_A) then columns log_scenario_A
                          else columns log_scenario_A @ [''atoms''])"
    "length (rows df') = length (rows log_scenario_A)"
    by blast
  then have "data st' = Some df' \<and> columns df' = [''a'', ''b'', ''atoms''] \<and> length (rows df') = 3"
    by (simp add: log_scenario_A_def)
  with run show ?thesis by blast
qed

text \<open>
  The claim as stated fails on the log of Scenario A: before Stage 1 the loaded frame
  has the columns \<open>a\<close> and \<open>b\<close>, after it the columns \<open>a\<close>, \<open>b\<close> and \<open>atoms\<close>.
\<close>

theorem stage1_changes_the_loaded_frame:
  "map_option columns (data (loaded log_scenario_A)) = Some [''a'', ''b''] \<and>
   (case self_stage1 frozenset_repr (loaded log_scenario_A) 2 of
      Inl e \<Rightarrow> False
    | Inr (res, st') \<Rightarrow> map_option columns (data st') = Some [''a'', ''b'', ''atoms''])"
  by code_simp

end
